theory Spec2Isabelle
  imports Complex_Main "HOL-Library.Word" "HOL-Library.Log_Nat"
begin

unbundle bit_operations_syntax

section \<open>The battery monitor task of the Xling firmware\<close>

text \<open>
  The development embeds \<^verbatim>\<open>software/src/xling/tasks/battery_monitor_task.c\<close>.
  The file is written for an AVR microcontroller (it includes \<^verbatim>\<open>avr/io.h\<close> and
  \<^verbatim>\<open>avr/interrupt.h\<close>, programs \<^verbatim>\<open>ADMUX\<close>, \<^verbatim>\<open>ADCSRA\<close> and \<^verbatim>\<open>ADCSRB\<close> and
  installs \<^verbatim>\<open>ISR(ADC_vect)\<close>). On that target \<^verbatim>\<open>int\<close> and \<^verbatim>\<open>unsigned int\<close> are 16 bits
  wide, so \<^verbatim>\<open>uint16_t\<close> is \<^verbatim>\<open>unsigned int\<close> and is not promoted to \<^verbatim>\<open>int\<close>:
  arithmetic between a \<^verbatim>\<open>uint16_t\<close> and an \<^verbatim>\<open>int\<close> constant is done modulo \<open>2 ^ 16\<close>.
\<close>

type_synonym uint8_t = "8 word"
type_synonym uint16_t = "16 word"
type_synonym BaseType_t = int
type_synonym UBaseType_t = nat
type_synonym TaskHandle_t = nat

subsection \<open>Constants of the FreeRTOS kernel used by the file\<close>

definition pdPASS :: BaseType_t where
  "pdPASS = 1"

definition errQUEUE_EMPTY :: BaseType_t where
  "errQUEUE_EMPTY = 0"

definition errQUEUE_FULL :: BaseType_t where
  "errQUEUE_FULL = 0"

definition errCOULD_NOT_ALLOCATE_REQUIRED_MEMORY :: BaseType_t where
  "errCOULD_NOT_ALLOCATE_REQUIRED_MEMORY = - 1"

subsection \<open>Binary floating point\<close>

text \<open>
  A finite floating-point value is the rational number it denotes. \<open>fl p\<close> rounds a
  rational to the nearest number with a \<open>p\<close>-bit significand, ties to even, which is
  what every floating-point operation of the target does to its exact result. The
  exponent range is left out: the values of this program (between \<open>1 / 2\<close> and
  \<open>2 ^ 16\<close>) are far from overflow and from the subnormal range. The precision is a
  parameter, \<open>24\<close> for the 32-bit \<^verbatim>\<open>double\<close> of avr-gcc and \<open>53\<close> for a 64-bit one.
\<close>

definition ilog2 :: "rat \<Rightarrow> int" where
  "ilog2 x = (let (a, b) = quotient_of x; e = bitlen a - bitlen b in
              if 2 powi e \<le> x then e else e - 1)"

definition round_half_even :: "rat \<Rightarrow> int" where
  "round_half_even x =
     (let f = \<lfloor>x\<rfloor>; d = x - of_int f in
      if d < 1 / 2 then f
      else if 1 / 2 < d then f + 1
      else if even f then f else f + 1)"

definition fl :: "nat \<Rightarrow> rat \<Rightarrow> rat" where
  "fl p x = (if x = 0 then 0 else
     let a = \<bar>x\<bar>; q = 2 powi (ilog2 a - int p + 1) in
     sgn x * of_int (round_half_even (a / q)) * q)"

subsection \<open>Local macros\<close>

definition SET_BIT :: "uint8_t \<Rightarrow> nat \<Rightarrow> uint8_t" where
  "SET_BIT byte b = ucast ((ucast byte :: 16 word) OR push_bit b 1)"

definition CLEAR_BIT :: "uint8_t \<Rightarrow> nat \<Rightarrow> uint8_t" where
  "CLEAR_BIT byte b = byte AND ucast (NOT (push_bit b (1 :: 16 word)))"

definition BAT_MAX :: int where
  "BAT_MAX = 700"

definition BAT_MIN :: int where
  "BAT_MIN = 545"

text \<open>
  \<^verbatim>\<open>#define BAT_PERCENT(v) ((v)-BAT_MIN)/((BAT_MAX-BAT_MIN)/100.0)\<close>, used once, with
  the \<^verbatim>\<open>volatile uint16_t _bat_lvl\<close> for \<^verbatim>\<open>v\<close>. The subtraction \<^verbatim>\<open>(v)-BAT_MIN\<close> is
  between an \<^verbatim>\<open>unsigned int\<close> and an \<^verbatim>\<open>int\<close>, hence unsigned and modulo \<open>2 ^ 16\<close>; its
  result is converted to floating point. \<^verbatim>\<open>BAT_MAX-BAT_MIN\<close> is an \<^verbatim>\<open>int\<close>, converted and
  divided by \<^verbatim>\<open>100.0\<close>.
\<close>

definition BAT_PERCENT :: "nat \<Rightarrow> uint16_t \<Rightarrow> rat" where
  "BAT_PERCENT p v =
     fl p (fl p (of_int (uint (v - word_of_int BAT_MIN)))
           / fl p (fl p (of_int (BAT_MAX - BAT_MIN)) / fl p 100))"

subsection \<open>Bit numbers of the ADC registers\<close>

text \<open>The bit numbers of \<^verbatim>\<open>ADMUX\<close>, \<^verbatim>\<open>ADCSRA\<close> and \<^verbatim>\<open>ADCSRB\<close> as avr-libc gives them.\<close>

definition REFS1 :: nat where "REFS1 = 7"
definition REFS0 :: nat where "REFS0 = 6"
definition MUX4 :: nat where "MUX4 = 4"
definition MUX3 :: nat where "MUX3 = 3"
definition MUX2 :: nat where "MUX2 = 2"
definition MUX1 :: nat where "MUX1 = 1"
definition MUX0 :: nat where "MUX0 = 0"
definition ADEN :: nat where "ADEN = 7"
definition ADSC :: nat where "ADSC = 6"
definition ADATE :: nat where "ADATE = 5"
definition ADIE :: nat where "ADIE = 3"
definition ADPS2 :: nat where "ADPS2 = 2"
definition ADPS1 :: nat where "ADPS1 = 1"
definition ADPS0 :: nat where "ADPS0 = 0"
definition ADTS2 :: nat where "ADTS2 = 2"
definition ADTS1 :: nat where "ADTS1 = 1"
definition ADTS0 :: nat where "ADTS0 = 0"

subsection \<open>Messages and queues\<close>

text \<open>
  Modelled from the spec: \<^verbatim>\<open>xm_msg_t\<close> and the message types are declared in
  \<^verbatim>\<open>xling/msg.h\<close>, which is not among the sources. The inbound message has a
  suspend-request variant and other, ignored ones; the outbound message is a
  battery-level variant carrying a floating-point percentage or a battery-status-pin
  variant carrying a bit. The file uses the two fields \<^verbatim>\<open>type\<close> and \<^verbatim>\<open>value\<close>.
\<close>

datatype xm_msg_type =
    XM_MSG_TASKSUSP_REQ
  | XM_MSG_BATLVL
  | XM_MSG_BATSTATPIN
  | XM_MSG_OTHER nat

record xm_msg_t =
  msg_type :: xm_msg_type
  msg_value :: rat

text \<open>
  A FreeRTOS queue holds at most \<open>uxLength\<close> items. Every queue call of the file
  passes a block time of \<open>0\<close>: it returns at once, with an error when the queue is
  empty (receive) or full (send).
\<close>

record queue =
  items :: "xm_msg_t list"
  uxLength :: nat

definition xQueueReceive :: "queue \<Rightarrow> xm_msg_t \<Rightarrow> BaseType_t \<times> xm_msg_t \<times> queue" where
  "xQueueReceive q buf =
     (case items q of
        [] \<Rightarrow> (errQUEUE_EMPTY, buf, q)
      | m # ms \<Rightarrow> (pdPASS, m, q\<lparr>items := ms\<rparr>))"

definition xQueueSendToBack :: "queue \<Rightarrow> xm_msg_t \<Rightarrow> BaseType_t \<times> queue" where
  "xQueueSendToBack q m =
     (if length (items q) < uxLength q then (pdPASS, q\<lparr>items := items q @ [m]\<rparr>)
      else (errQUEUE_FULL, q))"

subsection \<open>State\<close>

text \<open>
  The task function is an endless loop that gives up the processor inside
  \<^verbatim>\<open>vTaskDelayUntil\<close> and \<^verbatim>\<open>xTaskNotifyWait\<close> and can be preempted anywhere else. It is
  modelled by its control points: one step runs the task from one call of the kernel
  to the next.
\<close>

datatype pc =
    PC_init          \<comment> \<open>\<^verbatim>\<open>last_wake_time = xTaskGetTickCount()\<close>\<close>
  | PC_delay         \<comment> \<open>\<^verbatim>\<open>vTaskDelayUntil(&last_wake_time, TASK_DELAY)\<close>\<close>
  | PC_recv          \<comment> \<open>\<^verbatim>\<open>xQueueReceive(battery_queue, &msg, 0)\<close>\<close>
  | PC_notify_wait   \<comment> \<open>inside \<^verbatim>\<open>xTaskNotifyWait(0, 0, NULL, portMAX_DELAY)\<close>\<close>
  | PC_send_lvl      \<comment> \<open>the battery level message\<close>
  | PC_send_stat     \<comment> \<open>the battery status pin message\<close>

text \<open>What the task did, as a history: its receives, its waits and its sends.\<close>

datatype event =
    Received xm_msg_t
  | QueueEmpty
  | NotifyWait
  | Sent xm_msg_t
  | SendFailed xm_msg_t

text \<open>
  What start-up did, as a history: every write to a register of the ADC, with the value
  written, and the call of \<^verbatim>\<open>xTaskCreate\<close>, with the priority it was given.
\<close>

datatype adc_reg = R_ADMUX | R_ADCSRA | R_ADCSRB

datatype init_event =
    RegWrite adc_reg uint8_t
  | TaskCreateCall UBaseType_t

text \<open>
  The state: the registers of the ADC and of port A, the three file-level variables
  (\<^verbatim>\<open>_bat_lvl\<close>, \<^verbatim>\<open>_bat_stat\<close>, \<^verbatim>\<open>_task_handle\<close>), the caller's slot \<^verbatim>\<open>*task_handle\<close>, the
  kernel objects the task uses (its two queues, its notification state, the tick
  count), the locals of \<^verbatim>\<open>batmon_task\<close>, and the history: \<open>wakes\<close> lists the wake
  times handed to the scheduler, \<open>ticks\<close> the events of every finished pass of the
  task loop, \<open>cur\<close> those of the pass under way, \<open>init_log\<close> the events of start-up.
  \<open>'t\<close> is \<^verbatim>\<open>TickType_t\<close>, a word whose width the kernel configuration chooses.
\<close>

record 't xling =
  ADMUX :: uint8_t
  ADCSRA :: uint8_t
  ADCSRB :: uint8_t
  ADCL :: uint8_t
  ADCH :: uint8_t
  PINA :: uint8_t
  bat_lvl :: uint16_t
  bat_stat :: uint8_t
  g_task_handle :: TaskHandle_t
  out_task_handle :: TaskHandle_t
  battery_queue :: queue
  display_queue :: queue
  notified :: bool
  xTickCount :: 't
  pc :: pc
  last_wake_time :: 't
  msg :: xm_msg_t
  status :: BaseType_t
  wakes :: "'t list"
  ticks :: "event list list"
  cur :: "event list"
  init_log :: "init_event list"

subsection \<open>Initialisation\<close>

text \<open>
  A write to a register of the ADC stores the value and is recorded. \<^verbatim>\<open>SET_BIT\<close> and
  \<^verbatim>\<open>CLEAR_BIT\<close> read the register, change one bit and write the result back.
\<close>

fun write_reg :: "adc_reg \<Rightarrow> uint8_t \<Rightarrow> 't xling \<Rightarrow> 't xling" where
  "write_reg R_ADMUX v s = s\<lparr>ADMUX := v, init_log := init_log s @ [RegWrite R_ADMUX v]\<rparr>"
| "write_reg R_ADCSRA v s = s\<lparr>ADCSRA := v, init_log := init_log s @ [RegWrite R_ADCSRA v]\<rparr>"
| "write_reg R_ADCSRB v s = s\<lparr>ADCSRB := v, init_log := init_log s @ [RegWrite R_ADCSRB v]\<rparr>"

fun is_reg_write :: "init_event \<Rightarrow> bool" where
  "is_reg_write (RegWrite r v) = True"
| "is_reg_write (TaskCreateCall prio) = False"

definition init_adc :: "'t xling \<Rightarrow> 't xling" where
  "init_adc s0 =
     (let s = write_reg R_ADMUX (SET_BIT (ADMUX s0) REFS1) s0;
          s = write_reg R_ADMUX (CLEAR_BIT (ADMUX s) REFS0) s;
          s = write_reg R_ADCSRA (SET_BIT (ADCSRA s) ADPS2) s;
          s = write_reg R_ADCSRA (SET_BIT (ADCSRA s) ADPS1) s;
          s = write_reg R_ADCSRA (CLEAR_BIT (ADCSRA s) ADPS0) s;
          s = write_reg R_ADMUX (CLEAR_BIT (ADMUX s) MUX4) s;
          s = write_reg R_ADMUX (CLEAR_BIT (ADMUX s) MUX3) s;
          s = write_reg R_ADMUX (CLEAR_BIT (ADMUX s) MUX2) s;
          s = write_reg R_ADMUX (SET_BIT (ADMUX s) MUX1) s;
          s = write_reg R_ADMUX (SET_BIT (ADMUX s) MUX0) s;
          s = write_reg R_ADCSRB (CLEAR_BIT (ADCSRB s) ADTS2) s;
          s = write_reg R_ADCSRB (CLEAR_BIT (ADCSRB s) ADTS1) s;
          s = write_reg R_ADCSRB (CLEAR_BIT (ADCSRB s) ADTS0) s;
          s = write_reg R_ADCSRA (SET_BIT (ADCSRA s) ADEN) s;
          s = write_reg R_ADCSRA (SET_BIT (ADCSRA s) ADIE) s;
          s = write_reg R_ADCSRA (SET_BIT (ADCSRA s) ADATE) s;
          s = write_reg R_ADCSRA (SET_BIT (ADCSRA s) ADSC) s
      in s)"

text \<open>
  \<^verbatim>\<open>xTaskCreate\<close> belongs to the kernel. Either it allocates the task, stores its
  handle through the pointer it was given and returns \<^verbatim>\<open>pdPASS\<close>, or it returns
  \<^verbatim>\<open>errCOULD_NOT_ALLOCATE_REQUIRED_MEMORY\<close> and stores nothing. Which of the two
  happens is the kernel's choice, the argument \<open>outcome\<close>. The call is recorded with
  the priority it was given, whatever its outcome. The pointer \<^verbatim>\<open>task_handle\<close> of the caller is taken to point to a slot,
  \<open>out_task_handle\<close>: the entry point dereferences it without a check.
\<close>

datatype create_outcome = Created TaskHandle_t | CouldNotAllocate

definition xTaskCreate :: "create_outcome \<Rightarrow> UBaseType_t \<Rightarrow> 't xling \<Rightarrow> BaseType_t \<times> 't xling" where
  "xTaskCreate outcome prio s0 =
     (let s = s0\<lparr>init_log := init_log s0 @ [TaskCreateCall prio]\<rparr>
      in case outcome of
           Created h \<Rightarrow> (pdPASS, s\<lparr>out_task_handle := h\<rparr>)
         | CouldNotAllocate \<Rightarrow> (errCOULD_NOT_ALLOCATE_REQUIRED_MEMORY, s))"

definition xt_init_battery_monitor ::
    "create_outcome \<Rightarrow> UBaseType_t \<Rightarrow> 't xling \<Rightarrow> int \<times> 't xling" where
  "xt_init_battery_monitor outcome prio s0 =
     (let rc = 0;
          s = init_adc s0;
          (status, s) = xTaskCreate outcome prio s
      in if status \<noteq> pdPASS then (1, s)
         else (rc, s\<lparr>g_task_handle := out_task_handle s\<rparr>))"

subsection \<open>The interrupt handler\<close>

definition ISR_ADC_vect :: "'t xling \<Rightarrow> 't xling" where
  "ISR_ADC_vect s =
     (let lvl_low = (ucast (ADCL s) :: uint16_t);
          lvl_high = push_bit 8 (ucast (ADCH s) :: uint16_t) AND 0x0300
      in s\<lparr>bat_lvl := lvl_high OR lvl_low,
           bat_stat := ucast ((ucast (PINA s) :: uint16_t) AND 1)\<rparr>)"

subsection \<open>The task\<close>

text \<open>
  One step of \<^verbatim>\<open>batmon_task\<close>. \<open>p\<close> is the precision of \<^verbatim>\<open>double\<close> and \<open>TASK_DELAY\<close> the
  period in ticks (\<^verbatim>\<open>pdMS_TO_TICKS(100)\<close>, which depends on the tick rate of the kernel
  configuration).

  \<^verbatim>\<open>vTaskDelayUntil\<close> adds the period to \<^verbatim>\<open>last_wake_time\<close>, in \<^verbatim>\<open>TickType_t\<close>, and
  blocks the task until that tick; how long the task then stays away is up to the
  scheduler, and in the model any number of other actions may come before the task's
  next step. \<^verbatim>\<open>xTaskNotifyWait\<close> with \<^verbatim>\<open>portMAX_DELAY\<close> returns once a notification is
  pending (and clears the pending state), and keeps the task blocked as long as none is.
\<close>

definition batmon_task :: "nat \<Rightarrow> 'w::len word \<Rightarrow> 'w word xling \<Rightarrow> 'w word xling" where
  "batmon_task p TASK_DELAY s =
     (case pc s of
        PC_init \<Rightarrow> s\<lparr>last_wake_time := xTickCount s, pc := PC_delay\<rparr>
      | PC_delay \<Rightarrow>
          (let w = last_wake_time s + TASK_DELAY
           in s\<lparr>last_wake_time := w, wakes := wakes s @ [w], pc := PC_recv\<rparr>)
      | PC_recv \<Rightarrow>
          (let (st, m, q) = xQueueReceive (battery_queue s) (msg s);
               s = s\<lparr>status := st, msg := m, battery_queue := q\<rparr>
           in if st = pdPASS then
                (case msg_type m of
                   XM_MSG_TASKSUSP_REQ \<Rightarrow>
                     s\<lparr>cur := cur s @ [Received m, NotifyWait], pc := PC_notify_wait\<rparr>
                 | _ \<Rightarrow> s\<lparr>cur := cur s @ [Received m], pc := PC_recv\<rparr>)
              else s\<lparr>cur := cur s @ [QueueEmpty], pc := PC_send_lvl\<rparr>)
      | PC_notify_wait \<Rightarrow>
          (if notified s then s\<lparr>notified := False, pc := PC_recv\<rparr> else s)
      | PC_send_lvl \<Rightarrow>
          (let m = (msg s)\<lparr>msg_type := XM_MSG_BATLVL,
                           msg_value := BAT_PERCENT p (bat_lvl s)\<rparr>;
               (st, q) = xQueueSendToBack (display_queue s) m;
               s = s\<lparr>msg := m, status := st, display_queue := q\<rparr>
           in if st \<noteq> pdPASS then
                s\<lparr>ticks := ticks s @ [cur s @ [SendFailed m]], cur := [], pc := PC_delay\<rparr>
              else s\<lparr>cur := cur s @ [Sent m], pc := PC_send_stat\<rparr>)
      | PC_send_stat \<Rightarrow>
          (let m = (msg s)\<lparr>msg_type := XM_MSG_BATSTATPIN,
                           msg_value := fl p (of_int (uint (bat_stat s)))\<rparr>;
               (st, q) = xQueueSendToBack (display_queue s) m;
               s = s\<lparr>msg := m, status := st, display_queue := q\<rparr>
           in if st \<noteq> pdPASS then
                s\<lparr>ticks := ticks s @ [cur s @ [SendFailed m]], cur := [], pc := PC_delay\<rparr>
              else s\<lparr>ticks := ticks s @ [cur s @ [Sent m]], cur := [], pc := PC_delay\<rparr>))"

subsection \<open>The rest of the system\<close>

text \<open>
  What happens around the task: the ADC finishes a conversion and its handler runs on
  the values of the data registers and of port A; another task puts a message into the
  battery queue or takes one from the display queue; another task notifies the battery
  monitor; the tick interrupt advances the tick count.
\<close>

datatype action =
    Task
  | Conversion uint8_t uint8_t uint8_t
  | Enqueue xm_msg_t
  | Dequeue
  | Notify
  | Tick

definition exec1 :: "nat \<Rightarrow> 'w::len word \<Rightarrow> 'w word xling \<Rightarrow> action \<Rightarrow> 'w word xling" where
  "exec1 p TASK_DELAY s a =
     (case a of
        Task \<Rightarrow> batmon_task p TASK_DELAY s
      | Conversion lo hi pin \<Rightarrow> ISR_ADC_vect (s\<lparr>ADCL := lo, ADCH := hi, PINA := pin\<rparr>)
      | Enqueue m \<Rightarrow> s\<lparr>battery_queue := snd (xQueueSendToBack (battery_queue s) m)\<rparr>
      | Dequeue \<Rightarrow>
          s\<lparr>display_queue := (display_queue s)\<lparr>items := drop 1 (items (display_queue s))\<rparr>\<rparr>
      | Notify \<Rightarrow> s\<lparr>notified := True\<rparr>
      | Tick \<Rightarrow> s\<lparr>xTickCount := xTickCount s + 1\<rparr>)"

definition exec :: "nat \<Rightarrow> 'w::len word \<Rightarrow> action list \<Rightarrow> 'w word xling \<Rightarrow> 'w word xling" where
  "exec p TASK_DELAY as s = foldl (exec1 p TASK_DELAY) s as"

subsection \<open>Start-up\<close>

text \<open>
  At start-up the variables of static storage duration are zero, the task is at its
  entry, no notification is pending and nothing has happened. \<open>boot\<close> is the
  initial state in which everything else is zero too, with queues of the given lengths.
\<close>

definition initial :: "'w::len word xling \<Rightarrow> bool" where
  "initial s \<longleftrightarrow>
     bat_lvl s = 0 \<and> bat_stat s = 0 \<and> g_task_handle s = 0 \<and>
     pc s = PC_init \<and> \<not> notified s \<and> wakes s = [] \<and> ticks s = [] \<and> cur s = []"

definition boot :: "nat \<Rightarrow> nat \<Rightarrow> 'w::len word xling" where
  "boot battery_len display_len =
     \<lparr>ADMUX = 0, ADCSRA = 0, ADCSRB = 0, ADCL = 0, ADCH = 0, PINA = 0,
      bat_lvl = 0, bat_stat = 0, g_task_handle = 0, out_task_handle = 0,
      battery_queue = \<lparr>items = [], uxLength = battery_len\<rparr>,
      display_queue = \<lparr>items = [], uxLength = display_len\<rparr>,
      notified = False, xTickCount = 0, pc = PC_init, last_wake_time = 0,
      msg = \<lparr>msg_type = XM_MSG_OTHER 0, msg_value = 0\<rparr>, status = 0,
      wakes = [], ticks = [], cur = [], init_log = []\<rparr>"

text \<open>The invariant of the shared sample state: a 10-bit level and a one-bit status.\<close>

definition sample_inv :: "'t xling \<Rightarrow> bool" where
  "sample_inv s \<longleftrightarrow> bat_lvl s \<le> 1023 \<and> bat_stat s \<le> 1"

subsection \<open>The shape of a pass of the task loop\<close>

text \<open>
  A finished pass is well formed when, after its receives and waits, it ends with its
  sends and these are: one failed send of a battery level message; or one battery level
  message sent, followed by one battery status pin message, sent or failed. \<open>pub_inv\<close>
  is the invariant that carries this through a run: the pass under way has sent
  nothing yet, except at the second send, where it has just sent the level message.
\<close>

fun is_send :: "event \<Rightarrow> bool" where
  "is_send (Sent m) = True"
| "is_send (SendFailed m) = True"
| "is_send e = False"

fun publish_ok :: "event list \<Rightarrow> bool" where
  "publish_ok [SendFailed m] = (msg_type m = XM_MSG_BATLVL)"
| "publish_ok [Sent m, Sent m'] = (msg_type m = XM_MSG_BATLVL \<and> msg_type m' = XM_MSG_BATSTATPIN)"
| "publish_ok [Sent m, SendFailed m'] = (msg_type m = XM_MSG_BATLVL \<and> msg_type m' = XM_MSG_BATSTATPIN)"
| "publish_ok es = False"

definition tick_wf :: "event list \<Rightarrow> bool" where
  "tick_wf t = publish_ok (dropWhile (\<lambda>e. \<not> is_send e) t)"

definition pub_inv :: "'t xling \<Rightarrow> bool" where
  "pub_inv s \<longleftrightarrow>
     list_all tick_wf (ticks s) \<and>
     (if pc s = PC_send_stat
      then \<exists>pre m. cur s = pre @ [Sent m] \<and> msg_type m = XM_MSG_BATLVL \<and>
                    list_all (\<lambda>e. \<not> is_send e) pre
      else list_all (\<lambda>e. \<not> is_send e) (cur s))"

section \<open>Properties\<close>

subsection \<open>Registers after the ADC configuration\<close>

lemma nat_less_8_cases:
  "k < LENGTH(8) \<Longrightarrow> k \<in> {0, 1, 2, 3, 4, 5, 6, 7 :: nat}"
  by (simp, linarith)

lemma SET_BIT_eq: "SET_BIT byte b = byte OR push_bit b 1"
  unfolding SET_BIT_def
  by (rule bit_word_eqI) (auto simp add: bit_simps)

lemma CLEAR_BIT_eq: "b < 8 \<Longrightarrow> CLEAR_BIT byte b = byte AND NOT (push_bit b 1)"
  unfolding CLEAR_BIT_def
  by (rule bit_word_eqI) (auto simp add: bit_simps)

lemma ADMUX_init_adc: "ADMUX (init_adc s) = (ADMUX s AND 0x20) OR 0x83"
  apply (simp add: init_adc_def Let_def SET_BIT_eq CLEAR_BIT_eq
      REFS1_def REFS0_def MUX4_def MUX3_def MUX2_def MUX1_def MUX0_def)
  apply (rule bit_word_eqI)
  apply (drule nat_less_8_cases)
  apply (auto simp add: bit_simps)
  done

lemma ADCSRA_init_adc: "ADCSRA (init_adc s) = (ADCSRA s AND 0x10) OR 0xEE"
  apply (simp add: init_adc_def Let_def SET_BIT_eq CLEAR_BIT_eq
      ADEN_def ADSC_def ADATE_def ADIE_def ADPS2_def ADPS1_def ADPS0_def)
  apply (rule bit_word_eqI)
  apply (drule nat_less_8_cases)
  apply (auto simp add: bit_simps)
  done

lemma ADCSRB_init_adc: "ADCSRB (init_adc s) = ADCSRB s AND 0xF8"
  apply (simp add: init_adc_def Let_def SET_BIT_eq CLEAR_BIT_eq ADTS2_def ADTS1_def ADTS0_def)
  apply (rule bit_word_eqI)
  apply (drule nat_less_8_cases)
  apply (auto simp add: bit_simps)
  done

text \<open>The configuration writes the three ADC registers, records it, and does nothing else.\<close>

lemma init_adc_frame:
  "init_adc s = s\<lparr>ADMUX := ADMUX (init_adc s), ADCSRA := ADCSRA (init_adc s),
                     ADCSRB := ADCSRB (init_adc s), init_log := init_log (init_adc s)\<rparr>"
  by (simp add: init_adc_def Let_def)

text \<open>The configuration is seventeen register writes, and no call of the kernel.\<close>

lemma init_adc_log:
  "\<exists>ws. init_log (init_adc s) = init_log s @ ws \<and> length ws = 17 \<and> list_all is_reg_write ws"
  by (simp add: init_adc_def Let_def)

lemma init_adc_statics [simp]:
  "bat_lvl (init_adc s) = bat_lvl s"
  "bat_stat (init_adc s) = bat_stat s"
  "g_task_handle (init_adc s) = g_task_handle s"
  "out_task_handle (init_adc s) = out_task_handle s"
  by (simp_all add: init_adc_def Let_def)


subsection \<open>Initialisation entry point\<close>

text \<open>
  C8. \<^verbatim>\<open>xt_init_battery_monitor\<close> configures the ADC first and then asks the kernel for
  the task, at the priority it was given: what it adds to the start-up history is the
  seventeen register writes of the configuration followed by one call of
  \<^verbatim>\<open>xTaskCreate\<close> with that priority, and the three ADC registers hold the
  configuration whatever the kernel answers. The result is \<open>0\<close> exactly when
  \<^verbatim>\<open>xTaskCreate\<close> returned \<^verbatim>\<open>pdPASS\<close> and non-zero exactly when the task could not be
  created; when it was created with handle \<open>h\<close>, \<open>h\<close> is in \<^verbatim>\<open>_task_handle\<close>
  afterwards.
\<close>

theorem xt_init_battery_monitor_result:
  "(let c = xTaskCreate outcome prio (init_adc s);
        r = xt_init_battery_monitor outcome prio s
    in (fst r = 0 \<longleftrightarrow> fst c = pdPASS) \<and>
       (fst r \<noteq> 0 \<longleftrightarrow> outcome = CouldNotAllocate) \<and>
       (\<forall>h. outcome = Created h \<longrightarrow> g_task_handle (snd r) = h \<and> out_task_handle (snd r) = h) \<and>
       ADMUX (snd r) = (ADMUX s AND 0x20) OR 0x83 \<and>
       ADCSRA (snd r) = (ADCSRA s AND 0x10) OR 0xEE \<and>
       ADCSRB (snd r) = ADCSRB s AND 0xF8 \<and>
       (\<exists>ws. init_log (snd r) = init_log s @ ws @ [TaskCreateCall prio] \<and>
             length ws = 17 \<and> list_all is_reg_write ws))"
proof -
  obtain ws where ws: "init_log (init_adc s) = init_log s @ ws" "length ws = 17"
    "list_all is_reg_write ws"
    using init_adc_log[of s] by blast
  have "init_log (snd (xt_init_battery_monitor outcome prio s)) =
          init_log (init_adc s) @ [TaskCreateCall prio]"
    by (cases outcome)
      (simp_all add: xt_init_battery_monitor_def xTaskCreate_def pdPASS_def
        errCOULD_NOT_ALLOCATE_REQUIRED_MEMORY_def Let_def)
  then have "init_log (snd (xt_init_battery_monitor outcome prio s)) =
          init_log s @ ws @ [TaskCreateCall prio]"
    by (simp add: ws(1))
  with ws(2,3) have log: "\<exists>ws. init_log (snd (xt_init_battery_monitor outcome prio s)) =
          init_log s @ ws @ [TaskCreateCall prio] \<and> length ws = 17 \<and> list_all is_reg_write ws"
    by blast
  show ?thesis
  proof (cases outcome)
    case (Created h)
    then show ?thesis
      using ADMUX_init_adc[of s] ADCSRA_init_adc[of s] ADCSRB_init_adc[of s] log
      by (simp add: xt_init_battery_monitor_def xTaskCreate_def pdPASS_def Let_def)
  next
    case CouldNotAllocate
    then show ?thesis
      using ADMUX_init_adc[of s] ADCSRA_init_adc[of s] ADCSRB_init_adc[of s] log
      by (simp add: xt_init_battery_monitor_def xTaskCreate_def pdPASS_def
          errCOULD_NOT_ALLOCATE_REQUIRED_MEMORY_def Let_def)
  qed
qed

theorem xt_init_battery_monitor_result_witness:
  "fst (xt_init_battery_monitor (Created 7) 3 (boot 4 4 :: 16 word xling)) = 0 \<and>
   g_task_handle (snd (xt_init_battery_monitor (Created 7) 3 (boot 4 4 :: 16 word xling))) = 7 \<and>
   ADMUX (snd (xt_init_battery_monitor (Created 7) 3 (boot 4 4 :: 16 word xling))) = 0x83 \<and>
   length (init_log (snd (xt_init_battery_monitor (Created 7) 3 (boot 4 4 :: 16 word xling)))) = 18 \<and>
   last (init_log (snd (xt_init_battery_monitor (Created 7) 3 (boot 4 4 :: 16 word xling))))
     = TaskCreateCall 3 \<and>
   fst (xt_init_battery_monitor CouldNotAllocate 3 (boot 4 4 :: 16 word xling)) \<noteq> 0"
proof -
  let ?b = "boot 4 4 :: 16 word xling"
  let ?r = "xt_init_battery_monitor (Created 7) 3 ?b"
  have e: "init_log ?b = []" "ADMUX ?b = 0" by (simp_all add: boot_def)
  from xt_init_battery_monitor_result[of "Created 7" 3 ?b]
  obtain ws where a: "fst ?r = 0" "g_task_handle (snd ?r) = 7" "ADMUX (snd ?r) = 0x83"
    and l: "init_log (snd ?r) = ws @ [TaskCreateCall 3]" "length ws = 17"
    unfolding Let_def e by (auto simp add: xTaskCreate_def pdPASS_def)
  have "fst (xt_init_battery_monitor CouldNotAllocate 3 ?b) \<noteq> 0"
    using xt_init_battery_monitor_result[of CouldNotAllocate 3 ?b]
    unfolding Let_def by blast
  then show ?thesis using a l by simp
qed

text \<open>
  C10. When \<^verbatim>\<open>xTaskCreate\<close> does not return \<^verbatim>\<open>pdPASS\<close>, \<^verbatim>\<open>_task_handle\<close> has after the
  call the value it had before, and the call returns \<open>1\<close>.
\<close>

theorem xt_init_failure_keeps_task_handle:
  assumes "fst (xTaskCreate outcome prio (init_adc s)) \<noteq> pdPASS"
  shows "g_task_handle (snd (xt_init_battery_monitor outcome prio s)) = g_task_handle s \<and>
         fst (xt_init_battery_monitor outcome prio s) = 1"
  using assms
  by (cases outcome) (simp_all add: xt_init_battery_monitor_def xTaskCreate_def Let_def)

theorem xt_init_failure_keeps_task_handle_witness:
  "fst (xTaskCreate CouldNotAllocate 3
         (init_adc ((boot 4 4 :: 16 word xling)\<lparr>g_task_handle := 5\<rparr>))) \<noteq> pdPASS \<and>
   g_task_handle (snd (xt_init_battery_monitor CouldNotAllocate 3
         ((boot 4 4 :: 16 word xling)\<lparr>g_task_handle := 5\<rparr>))) = 5 \<and>
   fst (xt_init_battery_monitor CouldNotAllocate 3
         ((boot 4 4 :: 16 word xling)\<lparr>g_task_handle := 5\<rparr>)) = 1"
proof -
  have h: "fst (xTaskCreate CouldNotAllocate 3
             (init_adc ((boot 4 4 :: 16 word xling)\<lparr>g_task_handle := 5\<rparr>))) \<noteq> pdPASS"
    by (simp add: xTaskCreate_def pdPASS_def errCOULD_NOT_ALLOCATE_REQUIRED_MEMORY_def)
  show ?thesis
    using h xt_init_failure_keeps_task_handle[OF h] by (simp add: boot_def)
qed

subsection \<open>The shared sample state\<close>

lemma exec_Nil [simp]: "exec p D [] s = s"
  by (simp add: exec_def)

lemma exec_Cons [simp]: "exec p D (a # as) s = exec p D as (exec1 p D s a)"
  by (simp add: exec_def)

lemma exec_append: "exec p D (as @ bs) s = exec p D bs (exec p D as s)"
  by (simp add: exec_def)


lemma bat_lvl_ISR_le: "bat_lvl (ISR_ADC_vect s) \<le> 1023"
proof -
  have e: "(768 :: 16 word) = push_bit 8 (mask 2)"
    by (simp add: mask_eq_exp_minus_1)
  have "bat_lvl (ISR_ADC_vect s) = bat_lvl (ISR_ADC_vect s) AND mask 10"
    unfolding ISR_ADC_vect_def Let_def
    apply (simp add: e)
    apply (rule bit_word_eqI)
    apply (auto simp add: bit_simps dest: bit_imp_le_length)
    done
  moreover have "bat_lvl (ISR_ADC_vect s) AND mask 10 \<le> mask 10"
    by (rule word_and_le1)
  moreover have "(mask 10 :: 16 word) = 1023" by (simp add: mask_eq_exp_minus_1)
  ultimately show ?thesis by simp
qed

lemma bat_stat_ISR_le: "bat_stat (ISR_ADC_vect s) \<le> 1"
  unfolding ISR_ADC_vect_def Let_def
  by (simp add: unsigned_and_eq word_and_le1)

lemma batmon_task_statics:
  "bat_lvl (batmon_task p D s) = bat_lvl s"
  "bat_stat (batmon_task p D s) = bat_stat s"
  "g_task_handle (batmon_task p D s) = g_task_handle s"
  by (simp_all add: batmon_task_def Let_def xQueueReceive_def xQueueSendToBack_def
      split: pc.splits list.splits xm_msg_type.splits prod.splits)

lemma exec1_samples:
  assumes "\<forall>lo hi pin. a \<noteq> Conversion lo hi pin"
  shows "bat_lvl (exec1 p D s a) = bat_lvl s \<and> bat_stat (exec1 p D s a) = bat_stat s"
  using assms by (cases a) (simp_all add: exec1_def batmon_task_statics)

lemma xt_init_samples:
  "bat_lvl (snd (xt_init_battery_monitor outcome prio s)) = bat_lvl s"
  "bat_stat (snd (xt_init_battery_monitor outcome prio s)) = bat_stat s"
  by (cases outcome; simp add: xt_init_battery_monitor_def xTaskCreate_def Let_def)+


lemma exec1_sample_inv: "sample_inv s \<Longrightarrow> sample_inv (exec1 p D s a)"
proof (cases "\<forall>lo hi pin. a \<noteq> Conversion lo hi pin")
  case True
  assume "sample_inv s"
  then show ?thesis using exec1_samples[OF True, of p D s] by (simp add: sample_inv_def)
next
  case False
  then obtain lo hi pin where "a = Conversion lo hi pin" by blast
  then show ?thesis
    by (simp add: exec1_def sample_inv_def bat_lvl_ISR_le bat_stat_ISR_le)
qed

lemma exec_sample_inv: "sample_inv s \<Longrightarrow> sample_inv (exec p D as s)"
  by (induction as arbitrary: s) (simp_all add: exec1_sample_inv)

lemma word_le_1_cases: "(x :: 'a::len word) \<le> 1 \<Longrightarrow> x = 0 \<or> x = 1"
  using order_antisym_conv word_le_sub1 by auto

text \<open>
  C9. \<^verbatim>\<open>_bat_lvl\<close> and \<^verbatim>\<open>_bat_stat\<close> are zero at start-up and still zero after
  \<^verbatim>\<open>xt_init_battery_monitor\<close>. In every state the system reaches from there, by any
  sequence of task steps, conversions and actions of the other tasks, hence also after
  every run of the interrupt handler, \<^verbatim>\<open>_bat_lvl\<close> is at most \<open>1023\<close> and \<^verbatim>\<open>_bat_stat\<close>
  is \<open>0\<close> or \<open>1\<close>. Every action other than the interrupt handler leaves both
  variables as they are.
\<close>

theorem shared_sample_state_invariant:
  assumes "initial s0"
  shows "bat_lvl s0 = 0 \<and> bat_stat s0 = 0 \<and>
         bat_lvl (snd (xt_init_battery_monitor outcome prio s0)) = 0 \<and>
         bat_stat (snd (xt_init_battery_monitor outcome prio s0)) = 0 \<and>
         (let s = exec p D as (snd (xt_init_battery_monitor outcome prio s0))
          in bat_lvl s \<le> 1023 \<and> (bat_stat s = 0 \<or> bat_stat s = 1) \<and>
             (\<forall>a. (\<forall>lo hi pin. a \<noteq> Conversion lo hi pin) \<longrightarrow>
                  bat_lvl (exec1 p D s a) = bat_lvl s \<and>
                  bat_stat (exec1 p D s a) = bat_stat s))"
proof -
  let ?s1 = "snd (xt_init_battery_monitor outcome prio s0)"
  have z: "bat_lvl s0 = 0" "bat_stat s0 = 0"
    using assms by (simp_all add: initial_def)
  then have z1: "bat_lvl ?s1 = 0" "bat_stat ?s1 = 0"
    by (simp_all add: xt_init_samples)
  then have "sample_inv ?s1" by (simp add: sample_inv_def)
  then have "sample_inv (exec p D as ?s1)" by (rule exec_sample_inv)
  then have "bat_lvl (exec p D as ?s1) \<le> 1023"
    and "bat_stat (exec p D as ?s1) = 0 \<or> bat_stat (exec p D as ?s1) = 1"
    by (simp_all add: sample_inv_def word_le_1_cases)
  moreover have "\<forall>a. (\<forall>lo hi pin. a \<noteq> Conversion lo hi pin) \<longrightarrow>
                  bat_lvl (exec1 p D (exec p D as ?s1) a) = bat_lvl (exec p D as ?s1) \<and>
                  bat_stat (exec1 p D (exec p D as ?s1) a) = bat_stat (exec p D as ?s1)"
    using exec1_samples by blast
  ultimately show ?thesis
    using z z1 by (simp add: Let_def)
qed

theorem shared_sample_state_invariant_witness:
  "initial (boot 4 4 :: 16 word xling) \<and>
   bat_lvl (exec 24 10 [Task, Conversion 255 255 255, Task]
             (snd (xt_init_battery_monitor (Created 1) 1 (boot 4 4 :: 16 word xling)))) = 1023 \<and>
   bat_stat (exec 24 10 [Task, Conversion 255 255 255, Task]
             (snd (xt_init_battery_monitor (Created 1) 1 (boot 4 4 :: 16 word xling)))) = 1"
proof -
  have i: "initial (boot 4 4 :: 16 word xling)"
    by (simp add: initial_def boot_def)
  have "bat_lvl (exec 24 10 [Task, Conversion 255 255 255, Task]
             (snd (xt_init_battery_monitor (Created 1) 1 (boot 4 4 :: 16 word xling)))) = 1023"
    by (simp add: exec1_def batmon_task_statics ISR_ADC_vect_def Let_def)
  moreover have "bat_stat (exec 24 10 [Task, Conversion 255 255 255, Task]
             (snd (xt_init_battery_monitor (Created 1) 1 (boot 4 4 :: 16 word xling)))) = 1"
    by (simp add: exec1_def batmon_task_statics ISR_ADC_vect_def Let_def)
  ultimately show ?thesis
    using i shared_sample_state_invariant[OF i, of "Created 1" 1 24 10 "[Task, Conversion 255 255 255, Task]"]
    by simp
qed

subsection \<open>Rounding is monotone\<close>

lemma bitlen_powi_bounds:
  assumes "0 < a"
  shows "(2::rat) powi (bitlen a - 1) \<le> of_int a" and "of_int a < (2::rat) powi (bitlen a)"
proof -
  from bitlen_bounds[OF assms] have lo: "2 ^ nat (bitlen a - 1) \<le> a" and hi: "a < 2 ^ nat (bitlen a)"
    by auto
  have pos: "0 < bitlen a" using assms bitlen_eq_zero_iff[of a] bitlen_nonneg[of a] by linarith
  have "(of_int (2 ^ nat (bitlen a - 1)) :: rat) \<le> of_int a" using lo by (simp only: of_int_le_iff)
  then show "(2::rat) powi (bitlen a - 1) \<le> of_int a"
    using pos by (simp add: power_int_def)
  have "(of_int a :: rat) < of_int (2 ^ nat (bitlen a))" using hi by (simp only: of_int_less_iff)
  then show "of_int a < (2::rat) powi (bitlen a)"
    using pos by (simp add: power_int_def)
qed

lemma ilog2_bounds:
  assumes "0 < x"
  shows "2 powi (ilog2 x) \<le> x" and "x < 2 powi (ilog2 x + 1)"
proof -
  obtain a b where q: "quotient_of x = (a, b)" by (cases "quotient_of x")
  have b: "0 < b" using q quotient_of_denom_pos by blast
  have x: "x = of_int a / of_int b" using q by (rule quotient_of_div)
  have a: "0 < a" using assms b x by (simp add: zero_less_divide_iff)
  define e where "e = bitlen a - bitlen b"
  have bp: "(0::rat) < of_int b" using b by simp
  have "x < 2 powi (bitlen a) / 2 powi (bitlen b - 1)"
    unfolding x using bitlen_powi_bounds[OF a] bitlen_powi_bounds[OF b] bp a
    by (intro frac_less) (auto)
  also have "\<dots> = 2 powi (bitlen a - (bitlen b - 1))"
    by (subst power_int_diff) auto
  also have "bitlen a - (bitlen b - 1) = e + 1"
    by (simp add: e_def)
  finally have hi: "x < 2 powi (e + 1)" .
  have "2 powi (bitlen a - 1) / 2 powi (bitlen b) < x"
    unfolding x using bitlen_powi_bounds[OF a] bitlen_powi_bounds[OF b] bp
    by (intro frac_less2) (auto)
  moreover have "2 powi (bitlen a - 1) / 2 powi (bitlen b) = (2::rat) powi (bitlen a - 1 - bitlen b)"
    by (subst power_int_diff) auto
  moreover have "bitlen a - 1 - bitlen b = e - 1"
    by (simp add: e_def)
  ultimately have lo: "2 powi (e - 1) < x" by simp
  have il: "ilog2 x = (if 2 powi e \<le> x then e else e - 1)"
    by (simp add: ilog2_def q e_def Let_def)
  show "2 powi (ilog2 x) \<le> x" using lo by (simp add: il)
  show "x < 2 powi (ilog2 x + 1)" using hi by (auto simp add: il)
qed

lemma ilog2_mono:
  assumes "0 < x" "x \<le> y"
  shows "ilog2 x \<le> ilog2 y"
proof -
  have "(2::rat) powi (ilog2 x) < 2 powi (ilog2 y + 1)"
    using ilog2_bounds(1)[OF assms(1)] ilog2_bounds(2)[of y] assms by linarith
  moreover have "(2::rat) powi (ilog2 y + 1) \<le> 2 powi (ilog2 x)" if "ilog2 y + 1 \<le> ilog2 x"
    using that by (intro power_int_increasing) auto
  ultimately show ?thesis by fastforce
qed

lemma round_half_even_of_int: "round_half_even (of_int n) = n"
  by (simp add: round_half_even_def)

lemma round_half_even_mono:
  assumes "x \<le> y"
  shows "round_half_even x \<le> round_half_even y"
proof (cases "\<lfloor>x\<rfloor> = \<lfloor>y\<rfloor>")
  case True
  then show ?thesis using assms by (auto simp add: round_half_even_def Let_def)
next
  case False
  then have "\<lfloor>x\<rfloor> + 1 \<le> \<lfloor>y\<rfloor>" using assms floor_mono[OF assms] by linarith
  moreover have "round_half_even x \<le> \<lfloor>x\<rfloor> + 1" by (simp add: round_half_even_def Let_def)
  moreover have "\<lfloor>y\<rfloor> \<le> round_half_even y" by (simp add: round_half_even_def Let_def)
  ultimately show ?thesis by linarith
qed

lemma round_half_even_nonneg: "0 \<le> x \<Longrightarrow> 0 \<le> round_half_even x"
  using round_half_even_mono[of 0 x] round_half_even_of_int[of 0] by simp

lemma fl_pos_eq:
  "0 < x \<Longrightarrow> fl p x = of_int (round_half_even (x / 2 powi (ilog2 x - int p + 1))) * 2 powi (ilog2 x - int p + 1)"
  by (simp add: fl_def Let_def)

lemma fl_nonneg: "0 \<le> x \<Longrightarrow> 0 \<le> fl p x"
proof (cases "x = 0")
  case True
  then show ?thesis by (simp add: fl_def)
next
  case False
  assume "0 \<le> x"
  with False have x: "0 < x" by simp
  have "0 \<le> round_half_even (x / 2 powi (ilog2 x - int p + 1))"
    using x by (intro round_half_even_nonneg) simp
  then show ?thesis by (simp add: fl_pos_eq[OF x])
qed

lemma fl_upper:
  assumes x: "0 < x"
  shows "fl p x \<le> 2 powi (ilog2 x + 1)"
proof -
  define q :: rat where "q = 2 powi (ilog2 x - int p + 1)"
  have q: "0 < q" by (simp add: q_def)
  have "x / q \<le> 2 powi (ilog2 x + 1) / q"
    using ilog2_bounds(2)[OF x] q by (simp add: divide_right_mono)
  also have "2 powi (ilog2 x + 1) / q = 2 powi (ilog2 x + 1 - (ilog2 x - int p + 1))"
    unfolding q_def by (subst power_int_diff) auto
  also have "ilog2 x + 1 - (ilog2 x - int p + 1) = int p" by simp
  finally have "x / q \<le> of_int (2 ^ p)" by simp
  then have "round_half_even (x / q) \<le> 2 ^ p"
    using round_half_even_mono round_half_even_of_int by metis
  then have "(of_int (round_half_even (x / q)) :: rat) \<le> of_int (2 ^ p)"
    by (simp only: of_int_le_iff)
  then have "of_int (round_half_even (x / q)) * q \<le> 2 powi (int p) * q"
    using q by (simp add: mult_right_mono)
  also have "2 powi (int p) * q = 2 powi (int p + (ilog2 x - int p + 1))"
    unfolding q_def by (subst power_int_add) auto
  also have "int p + (ilog2 x - int p + 1) = ilog2 x + 1" by simp
  finally show ?thesis by (simp add: fl_pos_eq[OF x] q_def)
qed

lemma fl_lower:
  assumes x: "0 < x" and p: "0 < p"
  shows "2 powi (ilog2 x) \<le> fl p x"
proof -
  define q :: rat where "q = 2 powi (ilog2 x - int p + 1)"
  have q: "0 < q" by (simp add: q_def)
  have "2 powi (ilog2 x) / q = 2 powi (ilog2 x - (ilog2 x - int p + 1))"
    unfolding q_def by (subst power_int_diff) auto
  also have "ilog2 x - (ilog2 x - int p + 1) = int (p - 1)" using p by simp
  finally have e: "2 powi (ilog2 x) / q = of_int (2 ^ (p - 1))" by simp
  have "2 powi (ilog2 x) / q \<le> x / q"
    using ilog2_bounds(1)[OF x] q by (simp add: divide_right_mono)
  then have "of_int (2 ^ (p - 1)) \<le> x / q" by (simp only: e)
  then have "2 ^ (p - 1) \<le> round_half_even (x / q)"
    using round_half_even_mono round_half_even_of_int by metis
  then have "(of_int (2 ^ (p - 1)) :: rat) \<le> of_int (round_half_even (x / q))"
    by (simp only: of_int_le_iff)
  then have m: "of_int (2 ^ (p - 1)) * q \<le> of_int (round_half_even (x / q)) * q"
    using q by (intro mult_right_mono) auto
  have "2 powi (ilog2 x) = (2 powi (ilog2 x) / q) * q"
    using q by simp
  also have "\<dots> = of_int (2 ^ (p - 1)) * q" by (simp only: e)
  also note m
  also have "of_int (round_half_even (x / q)) * q = fl p x"
    unfolding q_def by (simp only: fl_pos_eq[OF x])
  finally show ?thesis .
qed

lemma fl_mono:
  assumes p: "0 < p" and x: "0 \<le> x" and xy: "x \<le> y"
  shows "fl p x \<le> fl p y"
proof (cases "x = 0")
  case True
  then show ?thesis using fl_nonneg[of y p] x xy by (simp add: fl_def)
next
  case False
  with x have xp: "0 < x" by simp
  with xy have yp: "0 < y" by simp
  have le: "ilog2 x \<le> ilog2 y" using ilog2_mono[OF xp xy] .
  show ?thesis
  proof (cases "ilog2 x = ilog2 y")
    case True
    define q :: rat where "q = 2 powi (ilog2 y - int p + 1)"
    have q: "0 < q" by (simp add: q_def)
    have "x / q \<le> y / q" using xy q by (simp add: divide_right_mono)
    then have "round_half_even (x / q) \<le> round_half_even (y / q)"
      by (rule round_half_even_mono)
    then have "(of_int (round_half_even (x / q)) :: rat) \<le> of_int (round_half_even (y / q))"
      by (simp only: of_int_le_iff)
    then have "of_int (round_half_even (x / q)) * q \<le> of_int (round_half_even (y / q)) * q"
      using q by (simp add: mult_right_mono)
    then show ?thesis by (simp add: fl_pos_eq[OF xp] fl_pos_eq[OF yp] True q_def)
  next
    case False
    with le have "ilog2 x + 1 \<le> ilog2 y" by simp
    then have "(2::rat) powi (ilog2 x + 1) \<le> 2 powi (ilog2 y)"
      by (intro power_int_increasing) auto
    with fl_upper[OF xp, of p] fl_lower[OF yp p] show ?thesis by linarith
  qed
qed


subsection \<open>The percentage\<close>

lemma BAT_PERCENT_divisor_nonneg:
  "0 \<le> fl p (fl p (of_int (BAT_MAX - BAT_MIN)) / fl p 100)"
proof -
  have "0 \<le> fl p (of_int (BAT_MAX - BAT_MIN))"
    by (rule fl_nonneg) (simp add: BAT_MAX_def BAT_MIN_def)
  moreover have "0 \<le> fl p 100"
    by (rule fl_nonneg) simp
  ultimately have "0 \<le> fl p (of_int (BAT_MAX - BAT_MIN)) / fl p 100"
    by (rule divide_nonneg_nonneg)
  then show ?thesis by (rule fl_nonneg)
qed

lemma fl_uint_nonneg: "0 \<le> fl p (of_int (uint w))"
  by (rule fl_nonneg, rule of_int_nonneg, rule uint_ge_0)

lemma BAT_PERCENT_nonneg: "0 \<le> BAT_PERCENT p v"
proof -
  have "0 \<le> fl p (of_int (uint (v - word_of_int BAT_MIN)))
            / fl p (fl p (of_int (BAT_MAX - BAT_MIN)) / fl p 100)"
    using fl_uint_nonneg BAT_PERCENT_divisor_nonneg by (rule divide_nonneg_nonneg)
  then show ?thesis
    unfolding BAT_PERCENT_def by (rule fl_nonneg)
qed

lemma BAT_PERCENT_mono:
  assumes p: "0 < p"
    and le: "uint (a - word_of_int BAT_MIN) \<le> uint (b - word_of_int BAT_MIN)"
  shows "BAT_PERCENT p a \<le> BAT_PERCENT p b"
proof -
  let ?c = "fl p (fl p (of_int (BAT_MAX - BAT_MIN)) / fl p 100)"
  have c: "0 \<le> ?c" by (rule BAT_PERCENT_divisor_nonneg)
  have "(of_int (uint (a - word_of_int BAT_MIN)) :: rat)
        \<le> of_int (uint (b - word_of_int BAT_MIN))"
    using le by (simp only: of_int_le_iff)
  moreover have "(0 :: rat) \<le> of_int (uint (a - word_of_int BAT_MIN))"
    by (rule of_int_nonneg, rule uint_ge_0)
  ultimately have "fl p (of_int (uint (a - word_of_int BAT_MIN)))
        \<le> fl p (of_int (uint (b - word_of_int BAT_MIN)))"
    using p by (intro fl_mono)
  then have "fl p (of_int (uint (a - word_of_int BAT_MIN))) / ?c
        \<le> fl p (of_int (uint (b - word_of_int BAT_MIN))) / ?c"
    using c by (rule divide_right_mono)
  moreover have "0 \<le> fl p (of_int (uint (a - word_of_int BAT_MIN))) / ?c"
    using fl_uint_nonneg c by (rule divide_nonneg_nonneg)
  ultimately show ?thesis
    unfolding BAT_PERCENT_def using p by (intro fl_mono)
qed

lemma BAT_PERCENT_545: "BAT_PERCENT p 545 = 0"
  by (simp add: BAT_PERCENT_def BAT_MIN_def fl_def)

lemma BAT_PERCENT_700: "BAT_PERCENT 24 700 = 100" "BAT_PERCENT 53 700 = 100"
  by code_simp+

lemma BAT_PERCENT_701: "100 < BAT_PERCENT 24 701" "100 < BAT_PERCENT 53 701"
  by code_simp+

lemma BAT_PERCENT_622:
  "BAT_PERCENT 24 622 = 6511319 / 131072"
  "BAT_PERCENT 53 622 = 6991475227974359 / 140737488355328"
  by code_simp+

lemma BAT_PERCENT_544:
  "BAT_PERCENT 24 544 = 10823845 / 256"
  "BAT_PERCENT 53 544 = 2905503811544361 / 68719476736"
  by code_simp+

lemma fl_1: "fl 24 1 = 1" "fl 53 1 = 1"
  by code_simp+

lemma uint_sub_BAT_MIN_in:
  assumes "545 \<le> (r :: uint16_t)"
  shows "uint (r - word_of_int BAT_MIN) = uint r - 545"
  using assms by (simp add: BAT_MIN_def uint_minus_simple_alt)

lemma uint_sub_BAT_MIN_below:
  assumes "(r :: uint16_t) < 545"
  shows "uint (r - word_of_int BAT_MIN) = uint r + 64991"
proof -
  have "uint r < 545" using assms by (simp add: word_less_def)
  moreover have "0 \<le> uint r" by (rule uint_ge_0)
  ultimately show ?thesis
    by (simp add: BAT_MIN_def uint_sub_if')
qed

text \<open>
  C1. For a raw reading \<open>r\<close> with \<open>545 \<le> r \<le> 700\<close> the percentage lies between \<open>0\<close>
  and \<open>100\<close>; it is exactly \<open>0\<close> at \<open>545\<close> and exactly \<open>100\<close> at \<open>700\<close>. This
  holds with the rounding of a 24-bit and of a 53-bit significand.
\<close>

theorem BAT_PERCENT_in_range:
  assumes p: "p = 24 \<or> p = 53" and lo: "545 \<le> r" and hi: "r \<le> 700"
  shows "0 \<le> BAT_PERCENT p r \<and> BAT_PERCENT p r \<le> 100 \<and>
         BAT_PERCENT p 545 = 0 \<and> BAT_PERCENT p 700 = 100"
proof -
  have p0: "0 < p" using p by auto
  have top: "BAT_PERCENT p 700 = 100" using p BAT_PERCENT_700 by auto
  have "uint r \<le> 700" using hi by (simp add: word_le_def)
  then have "uint (r - word_of_int BAT_MIN) \<le> uint ((700 :: uint16_t) - word_of_int BAT_MIN)"
    using uint_sub_BAT_MIN_in[OF lo] by (simp add: BAT_MIN_def)
  then have "BAT_PERCENT p r \<le> BAT_PERCENT p 700" by (rule BAT_PERCENT_mono[OF p0])
  then show ?thesis
    using top BAT_PERCENT_nonneg[of p r] BAT_PERCENT_545[of p] by simp
qed

theorem BAT_PERCENT_in_range_witness:
  "((24::nat) = 24 \<or> (24::nat) = 53) \<and> (545 :: uint16_t) \<le> 600 \<and> (600 :: uint16_t) \<le> 700 \<and>
   0 \<le> BAT_PERCENT 24 600 \<and> BAT_PERCENT 24 600 \<le> 100 \<and>
   BAT_PERCENT 24 545 = 0 \<and> BAT_PERCENT 24 700 = 100"
  using BAT_PERCENT_in_range[of 24 600] by simp

text \<open>
  Outside the interval the result is above \<open>100\<close> on both sides: above \<open>700\<close> because
  the mapping is linear and not clamped, below \<open>545\<close> because the unsigned subtraction
  wraps around to a value of at least \<open>64991\<close>.
\<close>

lemma BAT_PERCENT_outside_range:
  assumes p: "p = 24 \<or> p = 53" and out: "r < 545 \<or> 700 < r"
  shows "100 < BAT_PERCENT p r"
proof -
  have p0: "0 < p" using p by auto
  have "156 \<le> uint (r - word_of_int BAT_MIN)"
  proof (cases "r < 545")
    case True
    then show ?thesis using uint_sub_BAT_MIN_below[OF True] by simp
  next
    case False
    with out have h: "700 < r" by simp
    have ge: "545 \<le> r" using False by (simp add: not_less)
    have "700 < uint r" using h by (simp add: word_less_def)
    then show ?thesis using uint_sub_BAT_MIN_in[OF ge] by simp
  qed
  then have "uint ((701 :: uint16_t) - word_of_int BAT_MIN) \<le> uint (r - word_of_int BAT_MIN)"
    by (simp add: BAT_MIN_def)
  then have "BAT_PERCENT p 701 \<le> BAT_PERCENT p r" by (rule BAT_PERCENT_mono[OF p0])
  moreover have "100 < BAT_PERCENT p 701" using p BAT_PERCENT_701 by auto
  ultimately show ?thesis by simp
qed

subsection \<open>The steps of the task, one control point at a time\<close>

lemma xm_msg_update_all [simp]:
  "(m :: xm_msg_t)\<lparr>msg_type := a, msg_value := b\<rparr> = \<lparr>msg_type = a, msg_value = b\<rparr>"
  by (cases m) simp

lemma batmon_task_init:
  "pc s = PC_init \<Longrightarrow> batmon_task p D s = s\<lparr>last_wake_time := xTickCount s, pc := PC_delay\<rparr>"
  by (simp add: batmon_task_def)

lemma batmon_task_delay:
  "pc s = PC_delay \<Longrightarrow>
   batmon_task p D s = s\<lparr>last_wake_time := last_wake_time s + D,
                           wakes := wakes s @ [last_wake_time s + D], pc := PC_recv\<rparr>"
  by (simp add: batmon_task_def Let_def)

lemma batmon_task_recv_empty:
  "pc s = PC_recv \<Longrightarrow> items (battery_queue s) = [] \<Longrightarrow>
   batmon_task p D s = s\<lparr>status := errQUEUE_EMPTY, cur := cur s @ [QueueEmpty], pc := PC_send_lvl\<rparr>"
  by (simp add: batmon_task_def xQueueReceive_def errQUEUE_EMPTY_def pdPASS_def)

lemma batmon_task_recv_susp:
  "pc s = PC_recv \<Longrightarrow> items (battery_queue s) = m # ms \<Longrightarrow> msg_type m = XM_MSG_TASKSUSP_REQ \<Longrightarrow>
   batmon_task p D s =
     s\<lparr>status := pdPASS, msg := m, battery_queue := (battery_queue s)\<lparr>items := ms\<rparr>,
       cur := cur s @ [Received m, NotifyWait], pc := PC_notify_wait\<rparr>"
  by (simp add: batmon_task_def xQueueReceive_def Let_def)

lemma batmon_task_recv_other:
  "pc s = PC_recv \<Longrightarrow> items (battery_queue s) = m # ms \<Longrightarrow> msg_type m \<noteq> XM_MSG_TASKSUSP_REQ \<Longrightarrow>
   batmon_task p D s =
     s\<lparr>status := pdPASS, msg := m, battery_queue := (battery_queue s)\<lparr>items := ms\<rparr>,
       cur := cur s @ [Received m], pc := PC_recv\<rparr>"
  by (simp add: batmon_task_def xQueueReceive_def Let_def split: xm_msg_type.splits)

lemma batmon_task_notify_wait:
  "pc s = PC_notify_wait \<Longrightarrow>
   batmon_task p D s = (if notified s then s\<lparr>notified := False, pc := PC_recv\<rparr> else s)"
  by (simp add: batmon_task_def)

lemma batmon_task_send_lvl_full:
  "pc s = PC_send_lvl \<Longrightarrow> \<not> length (items (display_queue s)) < uxLength (display_queue s) \<Longrightarrow>
   batmon_task p D s =
     s\<lparr>msg := \<lparr>msg_type = XM_MSG_BATLVL, msg_value = BAT_PERCENT p (bat_lvl s)\<rparr>,
       status := errQUEUE_FULL,
       ticks := ticks s @ [cur s @ [SendFailed \<lparr>msg_type = XM_MSG_BATLVL,
                                                 msg_value = BAT_PERCENT p (bat_lvl s)\<rparr>]],
       cur := [], pc := PC_delay\<rparr>"
  by (simp add: batmon_task_def xQueueSendToBack_def errQUEUE_FULL_def pdPASS_def Let_def)

lemma batmon_task_send_lvl_room:
  "pc s = PC_send_lvl \<Longrightarrow> length (items (display_queue s)) < uxLength (display_queue s) \<Longrightarrow>
   batmon_task p D s =
     s\<lparr>msg := \<lparr>msg_type = XM_MSG_BATLVL, msg_value = BAT_PERCENT p (bat_lvl s)\<rparr>,
       status := pdPASS,
       display_queue := (display_queue s)\<lparr>items := items (display_queue s) @
          [\<lparr>msg_type = XM_MSG_BATLVL, msg_value = BAT_PERCENT p (bat_lvl s)\<rparr>]\<rparr>,
       cur := cur s @ [Sent \<lparr>msg_type = XM_MSG_BATLVL, msg_value = BAT_PERCENT p (bat_lvl s)\<rparr>],
       pc := PC_send_stat\<rparr>"
  by (simp add: batmon_task_def xQueueSendToBack_def Let_def)

lemma batmon_task_send_stat_full:
  "pc s = PC_send_stat \<Longrightarrow> \<not> length (items (display_queue s)) < uxLength (display_queue s) \<Longrightarrow>
   batmon_task p D s =
     s\<lparr>msg := \<lparr>msg_type = XM_MSG_BATSTATPIN, msg_value = fl p (of_int (uint (bat_stat s)))\<rparr>,
       status := errQUEUE_FULL,
       ticks := ticks s @ [cur s @ [SendFailed \<lparr>msg_type = XM_MSG_BATSTATPIN,
                                   msg_value = fl p (of_int (uint (bat_stat s)))\<rparr>]],
       cur := [], pc := PC_delay\<rparr>"
  by (simp add: batmon_task_def xQueueSendToBack_def errQUEUE_FULL_def pdPASS_def Let_def)

lemma batmon_task_send_stat_room:
  "pc s = PC_send_stat \<Longrightarrow> length (items (display_queue s)) < uxLength (display_queue s) \<Longrightarrow>
   batmon_task p D s =
     s\<lparr>msg := \<lparr>msg_type = XM_MSG_BATSTATPIN, msg_value = fl p (of_int (uint (bat_stat s)))\<rparr>,
       status := pdPASS,
       display_queue := (display_queue s)\<lparr>items := items (display_queue s) @
          [\<lparr>msg_type = XM_MSG_BATSTATPIN, msg_value = fl p (of_int (uint (bat_stat s)))\<rparr>]\<rparr>,
       ticks := ticks s @ [cur s @ [Sent \<lparr>msg_type = XM_MSG_BATSTATPIN,
                                   msg_value = fl p (of_int (uint (bat_stat s)))\<rparr>]],
       cur := [], pc := PC_delay\<rparr>"
  by (simp add: batmon_task_def xQueueSendToBack_def Let_def)

subsection \<open>The worked example\<close>

text \<open>
  C2, as stated, fails: for the raw level \<open>622\<close> the conversion does not yield \<open>50\<close>.
  (The midpoint of \<open>545\<close> and \<open>700\<close> is \<open>622.5\<close>, which no reading takes.)
\<close>

theorem BAT_PERCENT_622_is_not_50:
  "BAT_PERCENT 24 622 \<noteq> 50 \<and> BAT_PERCENT 53 622 \<noteq> 50"
  by (simp add: BAT_PERCENT_622)

text \<open>
  C2, amended. For the raw level \<open>622\<close> the conversion yields a value strictly between
  \<open>49.67\<close> and \<open>49.68\<close>; and when \<^verbatim>\<open>_bat_stat\<close> is \<open>1\<close>, the battery status pin message
  the task sends carries the value \<open>1\<close>: it is the message handed to the queue, and
  the last item of the display queue when the queue has room.
\<close>

theorem batmon_example_622_and_status:
  assumes p: "p = 24 \<or> p = 53"
  shows "4967 / 100 < BAT_PERCENT p 622 \<and> BAT_PERCENT p 622 < 4968 / 100 \<and>
         (pc s = PC_send_stat \<and> bat_stat s = 1 \<longrightarrow>
            msg (batmon_task p D s) = \<lparr>msg_type = XM_MSG_BATSTATPIN, msg_value = 1\<rparr> \<and>
            last (last (ticks (batmon_task p D s)))
              \<in> {Sent \<lparr>msg_type = XM_MSG_BATSTATPIN, msg_value = 1\<rparr>,
                  SendFailed \<lparr>msg_type = XM_MSG_BATSTATPIN, msg_value = 1\<rparr>} \<and>
            (length (items (display_queue s)) < uxLength (display_queue s) \<longrightarrow>
               items (display_queue (batmon_task p D s)) =
               items (display_queue s) @ [\<lparr>msg_type = XM_MSG_BATSTATPIN, msg_value = 1\<rparr>]))"
proof -
  have v: "4967 / 100 < BAT_PERCENT p 622 \<and> BAT_PERCENT p 622 < 4968 / 100"
    using p BAT_PERCENT_622 by auto
  have one: "fl p 1 = 1" using p fl_1 by auto
  show ?thesis
  proof (cases "length (items (display_queue s)) < uxLength (display_queue s)")
    case True
    then show ?thesis using v one by (simp add: batmon_task_send_stat_room)
  next
    case False
    then show ?thesis using v one by (simp add: batmon_task_send_stat_full)
  qed
qed

theorem batmon_example_622_and_status_witness:
  "((24::nat) = 24 \<or> (24::nat) = 53) \<and>
   4967 / 100 < BAT_PERCENT 24 622 \<and> BAT_PERCENT 24 622 < 4968 / 100 \<and>
   items (display_queue (batmon_task 24 (10 :: 16 word)
      ((boot 4 4)\<lparr>pc := PC_send_stat, bat_stat := 1\<rparr>))) =
     [\<lparr>msg_type = XM_MSG_BATSTATPIN, msg_value = 1\<rparr>]"
  using batmon_example_622_and_status[of 24 "(boot 4 4)\<lparr>pc := PC_send_stat, bat_stat := 1\<rparr>" "10 :: 16 word"]
  by (simp add: boot_def)

subsection \<open>Readings below the minimum\<close>

text \<open>
  C3. For the raw reading \<open>544\<close>, just below \<^verbatim>\<open>BAT_MIN\<close>, the conversion does not give a
  negative percentage: \<^verbatim>\<open>_bat_lvl - 545\<close> is computed in \<^verbatim>\<open>unsigned int\<close> and is \<open>65535\<close>,
  and the result is about \<open>42280.6\<close>, with either precision. The file's opening comment
  gives the purpose of the task as estimating the power left in order to prevent deep
  discharges; a reading below the minimum that is reported as far above \<open>100\<close> defeats it.
\<close>

theorem BAT_PERCENT_below_BAT_MIN_wraps:
  "BAT_PERCENT 24 544 = 10823845 / 256 \<and>
   BAT_PERCENT 53 544 = 2905503811544361 / 68719476736 \<and>
   100 < BAT_PERCENT 24 544 \<and> 100 < BAT_PERCENT 53 544"
  by (simp add: BAT_PERCENT_544)

subsection \<open>Wake times\<close>

lemma exec1_not_Task_frame:
  assumes "a \<noteq> Task"
  shows "pc (exec1 p D s a) = pc s" "wakes (exec1 p D s a) = wakes s"
    "last_wake_time (exec1 p D s a) = last_wake_time s"
    "ticks (exec1 p D s a) = ticks s" "cur (exec1 p D s a) = cur s"
  using assms by (cases a; simp add: exec1_def ISR_ADC_vect_def Let_def)+






subsection \<open>Draining the control queue\<close>

lemma drain_prefix:
  assumes "pc s = PC_recv" and "items (battery_queue s) = ms @ rest"
    and "\<forall>m\<in>set ms. msg_type m \<noteq> XM_MSG_TASKSUSP_REQ"
  shows "(batmon_task p D ^^ length ms) s =
           (if ms = [] then s
            else s\<lparr>status := pdPASS, msg := last ms,
                   battery_queue := (battery_queue s)\<lparr>items := rest\<rparr>,
                   cur := cur s @ map Received ms, pc := PC_recv\<rparr>)"
  using assms
proof (induction ms arbitrary: s)
  case Nil
  then show ?case by simp
next
  case (Cons m ms)
  let ?s' = "s\<lparr>status := pdPASS, msg := m, battery_queue := (battery_queue s)\<lparr>items := ms @ rest\<rparr>,
               cur := cur s @ [Received m], pc := PC_recv\<rparr>"
  have step: "batmon_task p D s = ?s'"
    using Cons.prems by (simp add: batmon_task_recv_other)
  have "(batmon_task p D ^^ length (m # ms)) s = (batmon_task p D ^^ length ms) ?s'"
    by (simp add: funpow_swap1 step)
  also have "\<dots> = (if ms = [] then ?s'
            else ?s'\<lparr>status := pdPASS, msg := last ms,
                   battery_queue := (battery_queue ?s')\<lparr>items := rest\<rparr>,
                   cur := cur ?s' @ map Received ms, pc := PC_recv\<rparr>)"
    using Cons.prems by (intro Cons.IH) simp_all
  finally show ?case by simp
qed

text \<open>
  C5. Let the task be at the receive of the drain loop, with \<open>N\<close> messages in the
  battery queue, none of them a suspend request, and let it run alone. Each of its
  first \<open>N\<close> steps receives one message and comes back to the receive (the task is
  never inside \<^verbatim>\<open>xTaskNotifyWait\<close>); after \<open>k\<close> steps the first \<open>k\<close> messages are gone
  from the queue and recorded as received. Step \<open>N + 1\<close> finds the queue empty and
  leaves the loop. Nothing but the queue, the locals \<^verbatim>\<open>msg\<close> and \<^verbatim>\<open>status\<close> and the
  history has changed: the messages are dropped.
\<close>

theorem drain_consumes_ignored_messages:
  assumes pc: "pc s = PC_recv" and q: "items (battery_queue s) = ms"
    and ign: "\<forall>m\<in>set ms. msg_type m \<noteq> XM_MSG_TASKSUSP_REQ"
  shows "(\<forall>k\<le>length ms.
            pc ((batmon_task p D ^^ k) s) = PC_recv \<and>
            items (battery_queue ((batmon_task p D ^^ k) s)) = drop k ms \<and>
            cur ((batmon_task p D ^^ k) s) = cur s @ map Received (take k ms)) \<and>
         (batmon_task p D ^^ Suc (length ms)) s =
            s\<lparr>status := errQUEUE_EMPTY, msg := (if ms = [] then msg s else last ms),
              battery_queue := (battery_queue s)\<lparr>items := []\<rparr>,
              cur := cur s @ map Received ms @ [QueueEmpty], pc := PC_send_lvl\<rparr>"
proof
  show "\<forall>k\<le>length ms.
            pc ((batmon_task p D ^^ k) s) = PC_recv \<and>
            items (battery_queue ((batmon_task p D ^^ k) s)) = drop k ms \<and>
            cur ((batmon_task p D ^^ k) s) = cur s @ map Received (take k ms)"
  proof (intro allI impI)
    fix k assume k: "k \<le> length ms"
    have split: "items (battery_queue s) = take k ms @ drop k ms" using q by simp
    have ign': "\<forall>m\<in>set (take k ms). msg_type m \<noteq> XM_MSG_TASKSUSP_REQ"
      using ign by (auto dest: in_set_takeD)
    have len: "length (take k ms) = k" using k by simp
    have e: "(batmon_task p D ^^ k) s =
           (if take k ms = [] then s
            else s\<lparr>status := pdPASS, msg := last (take k ms),
                   battery_queue := (battery_queue s)\<lparr>items := drop k ms\<rparr>,
                   cur := cur s @ map Received (take k ms), pc := PC_recv\<rparr>)"
      using drain_prefix[OF pc split ign', of p D] unfolding len .
    show "pc ((batmon_task p D ^^ k) s) = PC_recv \<and>
            items (battery_queue ((batmon_task p D ^^ k) s)) = drop k ms \<and>
            cur ((batmon_task p D ^^ k) s) = cur s @ map Received (take k ms)"
    proof (cases "take k ms = []")
      case True
      then have "k = 0 \<or> ms = []" by simp
      with k have "k = 0" by auto
      then show ?thesis using pc q by simp
    next
      case False
      then show ?thesis by (simp add: e)
    qed
  qed
next
  let ?t = "(batmon_task p D ^^ length ms) s"
  have all: "?t = (if ms = [] then s
            else s\<lparr>status := pdPASS, msg := last ms,
                   battery_queue := (battery_queue s)\<lparr>items := []\<rparr>,
                   cur := cur s @ map Received ms, pc := PC_recv\<rparr>)"
    using drain_prefix[OF pc _ ign, of "[]" p D] q by simp
  have "pc ?t = PC_recv" "items (battery_queue ?t) = []"
    using all pc q by (auto split: if_splits)
  then have "batmon_task p D ?t =
      ?t\<lparr>status := errQUEUE_EMPTY, cur := cur ?t @ [QueueEmpty], pc := PC_send_lvl\<rparr>"
    by (rule batmon_task_recv_empty)
  then show "(batmon_task p D ^^ Suc (length ms)) s =
            s\<lparr>status := errQUEUE_EMPTY, msg := (if ms = [] then msg s else last ms),
              battery_queue := (battery_queue s)\<lparr>items := []\<rparr>,
              cur := cur s @ map Received ms @ [QueueEmpty], pc := PC_send_lvl\<rparr>"
    using all q by (cases "ms = []") simp_all
qed

theorem drain_consumes_ignored_messages_witness:
  "pc ((boot 4 4 :: 16 word xling)\<lparr>pc := PC_recv, battery_queue := \<lparr>items =
         [\<lparr>msg_type = XM_MSG_OTHER 3, msg_value = 0\<rparr>, \<lparr>msg_type = XM_MSG_BATLVL, msg_value = 7\<rparr>],
         uxLength = 4\<rparr>\<rparr>) = PC_recv \<and>
   list_all (\<lambda>m. msg_type m \<noteq> XM_MSG_TASKSUSP_REQ)
     [\<lparr>msg_type = XM_MSG_OTHER 3, msg_value = 0\<rparr>, \<lparr>msg_type = XM_MSG_BATLVL, msg_value = 7\<rparr>] \<and>
   pc ((batmon_task 24 10 ^^ 3) ((boot 4 4 :: 16 word xling)\<lparr>pc := PC_recv, battery_queue := \<lparr>items =
         [\<lparr>msg_type = XM_MSG_OTHER 3, msg_value = 0\<rparr>, \<lparr>msg_type = XM_MSG_BATLVL, msg_value = 7\<rparr>],
         uxLength = 4\<rparr>\<rparr>)) = PC_send_lvl \<and>
   cur ((batmon_task 24 10 ^^ 3) ((boot 4 4 :: 16 word xling)\<lparr>pc := PC_recv, battery_queue := \<lparr>items =
         [\<lparr>msg_type = XM_MSG_OTHER 3, msg_value = 0\<rparr>, \<lparr>msg_type = XM_MSG_BATLVL, msg_value = 7\<rparr>],
         uxLength = 4\<rparr>\<rparr>)) =
     [Received \<lparr>msg_type = XM_MSG_OTHER 3, msg_value = 0\<rparr>,
      Received \<lparr>msg_type = XM_MSG_BATLVL, msg_value = 7\<rparr>, QueueEmpty]"
proof -
  let ?ms = "[\<lparr>msg_type = XM_MSG_OTHER 3, msg_value = 0\<rparr>, \<lparr>msg_type = XM_MSG_BATLVL, msg_value = 7\<rparr>]"
  let ?s = "(boot 4 4 :: 16 word xling)\<lparr>pc := PC_recv, battery_queue := \<lparr>items = ?ms, uxLength = 4\<rparr>\<rparr>"
  have a: "pc ?s = PC_recv" by simp
  have b: "items (battery_queue ?s) = ?ms" by simp
  have c: "\<forall>m\<in>set ?ms. msg_type m \<noteq> XM_MSG_TASKSUSP_REQ" by simp
  have n: "Suc (length ?ms) = 3" by simp
  show ?thesis
    using a c drain_consumes_ignored_messages[OF a b c, of 24 10]
    unfolding n by (simp add: boot_def)
qed

subsection \<open>Suspension\<close>

lemma blocked_exec1:
  assumes "pc s = PC_notify_wait" and "\<not> notified s" and "a \<noteq> Notify"
  shows "pc (exec1 p D s a) = PC_notify_wait \<and> \<not> notified (exec1 p D s a) \<and>
         cur (exec1 p D s a) = cur s \<and> ticks (exec1 p D s a) = ticks s \<and>
         (\<exists>new. items (battery_queue (exec1 p D s a)) = items (battery_queue s) @ new)"
  using assms
  by (cases a)
    (simp_all add: exec1_def batmon_task_notify_wait ISR_ADC_vect_def Let_def xQueueSendToBack_def)

lemma blocked_exec:
  assumes "pc s = PC_notify_wait" and "\<not> notified s" and "Notify \<notin> set as"
  shows "pc (exec p D as s) = PC_notify_wait \<and> \<not> notified (exec p D as s) \<and>
         cur (exec p D as s) = cur s \<and> ticks (exec p D as s) = ticks s \<and>
         (\<exists>new. items (battery_queue (exec p D as s)) = items (battery_queue s) @ new)"
  using assms
proof (induction as arbitrary: s)
  case Nil
  then show ?case by simp
next
  case (Cons a as)
  let ?t = "exec1 p D s a"
  have a: "a \<noteq> Notify" and as: "Notify \<notin> set as" using Cons.prems(3) by auto
  from blocked_exec1[OF Cons.prems(1,2) a, of p D]
  obtain new where t: "pc ?t = PC_notify_wait" "\<not> notified ?t" "cur ?t = cur s"
    "ticks ?t = ticks s" "items (battery_queue ?t) = items (battery_queue s) @ new"
    by blast
  from Cons.IH[OF t(1,2) as]
  obtain new' where u: "pc (exec p D as ?t) = PC_notify_wait" "\<not> notified (exec p D as ?t)"
    "cur (exec p D as ?t) = cur ?t" "ticks (exec p D as ?t) = ticks ?t"
    "items (battery_queue (exec p D as ?t)) = items (battery_queue ?t) @ new'"
    by blast
  have "items (battery_queue (exec p D as ?t)) = items (battery_queue s) @ (new @ new')"
    using t(5) u(5) by simp
  then have "\<exists>n. items (battery_queue (exec p D as ?t)) = items (battery_queue s) @ n"
    by blast
  then show ?case using t(3,4) u(1-4) by simp
qed

lemma batmon_task_recv_any:
  assumes "pc s = PC_recv" and "items (battery_queue s) = x # xs"
  shows "msg (batmon_task p D s) = x \<and> items (battery_queue (batmon_task p D s)) = xs"
proof (cases "msg_type x = XM_MSG_TASKSUSP_REQ")
  case True
  then show ?thesis using assms by (simp add: batmon_task_recv_susp)
next
  case False
  then show ?thesis using assms by (simp add: batmon_task_recv_other)
qed

text \<open>
  C6, as stated, fails when a notification is already pending at the moment the suspend
  request is received: \<^verbatim>\<open>xTaskNotifyWait\<close> then returns at once, and the task goes on
  to receive the next message although nobody notifies it after the request. In this
  run from the initial state the task is notified first, then a suspend request and
  one more message are queued, and the task consumes both in three steps.
\<close>

theorem suspend_request_with_pending_notification:
  "(let susp = \<lparr>msg_type = XM_MSG_TASKSUSP_REQ, msg_value = 0\<rparr>;
        other = \<lparr>msg_type = XM_MSG_OTHER 1, msg_value = 0\<rparr>;
        t = exec 24 10 [Task, Task, Notify, Enqueue susp, Enqueue other, Task, Task, Task]
              (boot 4 4 :: 16 word xling)
    in initial (boot 4 4 :: 16 word xling) \<and>
       pc t = PC_recv \<and> items (battery_queue t) = [] \<and>
       cur t = [Received susp, NotifyWait, Received other])"
  by (simp add: Let_def boot_def initial_def exec1_def batmon_task_def xQueueReceive_def
      xQueueSendToBack_def pdPASS_def)

text \<open>
  C6, amended. When the drain step receives a suspend request \<open>m\<close> while no
  notification is pending, the task is inside \<^verbatim>\<open>xTaskNotifyWait\<close> afterwards and stays
  there through every sequence of actions without a notification: it receives nothing
  (its history ends with the request and the wait), and the queue holds the messages
  that were behind the request, followed by those put in meanwhile. After a
  notification the task is back at the receive with the same queue, the notification is
  used up, and its next step receives the first message behind the request.
\<close>

theorem suspend_request_blocks_until_notified:
  assumes pc: "pc s = PC_recv" and q: "items (battery_queue s) = m # rest"
    and susp: "msg_type m = XM_MSG_TASKSUSP_REQ"
    and nopending: "\<not> notified s" and nonotify: "Notify \<notin> set as"
  shows "(let s1 = exec p D (Task # as) s;
              s2 = exec p D [Notify, Task] s1
          in pc s1 = PC_notify_wait \<and>
             cur s1 = cur s @ [Received m, NotifyWait] \<and>
             (\<exists>new. items (battery_queue s1) = rest @ new) \<and>
             pc s2 = PC_recv \<and> \<not> notified s2 \<and>
             cur s2 = cur s1 \<and> battery_queue s2 = battery_queue s1 \<and>
             (\<forall>x xs. items (battery_queue s1) = x # xs \<longrightarrow>
                msg (batmon_task p D s2) = x \<and>
                items (battery_queue (batmon_task p D s2)) = xs))"
proof -
  let ?s0 = "batmon_task p D s"
  have s0: "?s0 = s\<lparr>status := pdPASS, msg := m,
                     battery_queue := (battery_queue s)\<lparr>items := rest\<rparr>,
                     cur := cur s @ [Received m, NotifyWait], pc := PC_notify_wait\<rparr>"
    using pc q susp by (rule batmon_task_recv_susp)
  have a: "pc ?s0 = PC_notify_wait" and b: "\<not> notified ?s0"
    and c: "cur ?s0 = cur s @ [Received m, NotifyWait]"
    and d: "items (battery_queue ?s0) = rest"
    using nopending by (simp_all add: s0)
  let ?s1 = "exec p D as ?s0"
  from blocked_exec[OF a b nonotify, of p D]
  obtain new where s1: "pc ?s1 = PC_notify_wait" "cur ?s1 = cur ?s0"
    "items (battery_queue ?s1) = items (battery_queue ?s0) @ new"
    by blast
  have e: "exec p D (Task # as) s = ?s1" by (simp add: exec1_def)
  have f: "exec p D [Notify, Task] ?s1 = ?s1\<lparr>notified := False, pc := PC_recv\<rparr>"
    using s1(1) by (simp add: exec1_def batmon_task_notify_wait)
  have "\<forall>x xs. items (battery_queue ?s1) = x # xs \<longrightarrow>
          msg (batmon_task p D (?s1\<lparr>notified := False, pc := PC_recv\<rparr>)) = x \<and>
          items (battery_queue (batmon_task p D (?s1\<lparr>notified := False, pc := PC_recv\<rparr>))) = xs"
    by (intro allI impI batmon_task_recv_any) simp_all
  then show ?thesis
    unfolding Let_def e f using s1 c d by simp
qed

theorem suspend_request_blocks_until_notified_witness:
  "(let susp = \<lparr>msg_type = XM_MSG_TASKSUSP_REQ, msg_value = 0\<rparr>;
        other = \<lparr>msg_type = XM_MSG_OTHER 1, msg_value = 0\<rparr>;
        late = \<lparr>msg_type = XM_MSG_OTHER 2, msg_value = 0\<rparr>;
        s = (boot 4 4 :: 16 word xling)\<lparr>pc := PC_recv,
               battery_queue := \<lparr>items = [susp, other], uxLength = 4\<rparr>\<rparr>;
        s1 = exec 24 10 [Task, Tick, Task, Enqueue late, Task] s;
        s2 = exec 24 10 [Notify, Task] s1
    in pc s = PC_recv \<and> \<not> notified s \<and> Notify \<notin> set [Tick, Task, Enqueue late, Task] \<and>
       pc s1 = PC_notify_wait \<and> items (battery_queue s1) = [other, late] \<and>
       pc s2 = PC_recv \<and> items (battery_queue s2) = [other, late] \<and>
       cur s2 = [Received susp, NotifyWait])"
proof -
  let ?susp = "\<lparr>msg_type = XM_MSG_TASKSUSP_REQ, msg_value = 0\<rparr>"
  let ?other = "\<lparr>msg_type = XM_MSG_OTHER 1, msg_value = 0\<rparr>"
  let ?late = "\<lparr>msg_type = XM_MSG_OTHER 2, msg_value = 0\<rparr>"
  let ?s = "(boot 4 4 :: 16 word xling)\<lparr>pc := PC_recv,
               battery_queue := \<lparr>items = [?susp, ?other], uxLength = 4\<rparr>\<rparr>"
  let ?as = "[Tick, Task, Enqueue ?late, Task]"
  have a: "pc ?s = PC_recv" by simp
  have b: "items (battery_queue ?s) = ?susp # [?other]" by simp
  have c: "msg_type ?susp = XM_MSG_TASKSUSP_REQ" by simp
  have d: "\<not> notified ?s" by (simp add: boot_def)
  have e: "Notify \<notin> set ?as" by simp
  have q: "items (battery_queue (exec 24 10 (Task # ?as) ?s)) = [?other, ?late]"
    by (simp add: boot_def exec1_def batmon_task_def xQueueReceive_def xQueueSendToBack_def
        pdPASS_def Let_def)
  show ?thesis
    using a d e q suspend_request_blocks_until_notified[OF a b c d e, of 24 10]
    by (simp add: Let_def boot_def)
qed

subsection \<open>Publishing\<close>

lemma tick_wf_lvl_failed:
  assumes "list_all (\<lambda>e. \<not> is_send e) pre" and "msg_type m = XM_MSG_BATLVL"
  shows "tick_wf (pre @ [SendFailed m])"
  using assms by (simp add: tick_wf_def dropWhile_append3 list_all_iff dropWhile_append2)

lemma tick_wf_both:
  assumes "list_all (\<lambda>e. \<not> is_send e) pre" and "msg_type m = XM_MSG_BATLVL"
    and "e = Sent m' \<or> e = SendFailed m'" and "msg_type m' = XM_MSG_BATSTATPIN"
  shows "tick_wf ((pre @ [Sent m]) @ [e])"
  using assms by (auto simp add: tick_wf_def list_all_iff dropWhile_append2)

lemma pub_inv_batmon_task:
  assumes "pub_inv s"
  shows "pub_inv (batmon_task p D s)"
proof (cases "pc s")
  case PC_init
  then show ?thesis using assms by (simp add: pub_inv_def batmon_task_init)
next
  case PC_delay
  then show ?thesis using assms by (simp add: pub_inv_def batmon_task_delay)
next
  case PC_recv
  show ?thesis
  proof (cases "items (battery_queue s)")
    case Nil
    then show ?thesis using assms PC_recv by (simp add: pub_inv_def batmon_task_recv_empty)
  next
    case (Cons m ms)
    then show ?thesis using assms PC_recv
      by (cases "msg_type m = XM_MSG_TASKSUSP_REQ")
        (simp_all add: pub_inv_def batmon_task_recv_susp batmon_task_recv_other)
  qed
next
  case PC_notify_wait
  then show ?thesis using assms by (simp add: pub_inv_def batmon_task_notify_wait)
next
  case PC_send_lvl
  show ?thesis
  proof (cases "length (items (display_queue s)) < uxLength (display_queue s)")
    case True
    then show ?thesis using assms PC_send_lvl
      by (simp add: pub_inv_def batmon_task_send_lvl_room)
  next
    case False
    then show ?thesis using assms PC_send_lvl
      by (simp add: pub_inv_def batmon_task_send_lvl_full tick_wf_lvl_failed)
  qed
next
  case PC_send_stat
  with assms obtain pre m where c: "cur s = pre @ [Sent m]" "msg_type m = XM_MSG_BATLVL"
    "list_all (\<lambda>e. \<not> is_send e) pre" and t: "list_all tick_wf (ticks s)"
    by (auto simp add: pub_inv_def)
  show ?thesis
  proof (cases "length (items (display_queue s)) < uxLength (display_queue s)")
    case True
    then show ?thesis using PC_send_stat c t
      by (simp add: pub_inv_def batmon_task_send_stat_room tick_wf_both del: append_assoc)
  next
    case False
    then show ?thesis using PC_send_stat c t
      by (simp add: pub_inv_def batmon_task_send_stat_full tick_wf_both del: append_assoc)
  qed
qed

lemma pub_inv_exec1: "pub_inv s \<Longrightarrow> pub_inv (exec1 p D s a)"
proof (cases "a = Task")
  case True
  assume "pub_inv s"
  then show ?thesis using True by (simp add: exec1_def pub_inv_batmon_task)
next
  case False
  assume "pub_inv s"
  then show ?thesis using False by (simp add: pub_inv_def exec1_not_Task_frame)
qed

lemma pub_inv_exec: "pub_inv s \<Longrightarrow> pub_inv (exec p D as s)"
  by (induction as arbitrary: s) (simp_all add: pub_inv_exec1)

text \<open>
  C4. Start the task loop with an empty history and let the system run in any way.
  Every finished pass of the loop is well formed: after the receives come either one
  failed send of the battery level message and nothing more, or the battery level
  message followed by the one attempt to send the battery status pin message. And a
  send of the level message into a full display queue fails, leaves the queue as it
  is, closes the pass and takes the task back to \<^verbatim>\<open>vTaskDelayUntil\<close>.
\<close>

theorem publish_order_in_every_tick:
  assumes "pc s = PC_init \<or> pc s = PC_delay" and "ticks s = []" and "cur s = []"
  shows "(\<forall>t\<in>set (ticks (exec p D as s)). tick_wf t) \<and>
         (\<forall>s'. pc s' = PC_send_lvl \<and> \<not> length (items (display_queue s')) < uxLength (display_queue s') \<longrightarrow>
            pc (batmon_task p D s') = PC_delay \<and>
            display_queue (batmon_task p D s') = display_queue s' \<and>
            ticks (batmon_task p D s') = ticks s' @
              [cur s' @ [SendFailed \<lparr>msg_type = XM_MSG_BATLVL,
                                       msg_value = BAT_PERCENT p (bat_lvl s')\<rparr>]])"
proof -
  have "pub_inv s" using assms by (auto simp add: pub_inv_def)
  then have "pub_inv (exec p D as s)" by (rule pub_inv_exec)
  then have "\<forall>t\<in>set (ticks (exec p D as s)). tick_wf t"
    by (simp add: pub_inv_def list_all_iff)
  then show ?thesis by (simp add: batmon_task_send_lvl_full)
qed

theorem publish_order_in_every_tick_witness:
  "(let s = (boot 4 1 :: 16 word xling)\<lparr>pc := PC_delay\<rparr>;
        t = exec 24 10 [Task, Task, Task, Task, Task, Task, Task] s
    in (pc s = PC_init \<or> pc s = PC_delay) \<and> ticks s = [] \<and> cur s = [] \<and>
       ticks t =
         [[QueueEmpty, Sent \<lparr>msg_type = XM_MSG_BATLVL, msg_value = BAT_PERCENT 24 0\<rparr>,
           SendFailed \<lparr>msg_type = XM_MSG_BATSTATPIN, msg_value = 0\<rparr>],
          [QueueEmpty, SendFailed \<lparr>msg_type = XM_MSG_BATLVL, msg_value = BAT_PERCENT 24 0\<rparr>]] \<and>
       list_all tick_wf (ticks t))"
proof -
  let ?s = "(boot 4 1 :: 16 word xling)\<lparr>pc := PC_delay\<rparr>"
  let ?as = "[Task, Task, Task, Task, Task, Task, Task]"
  have a: "pc ?s = PC_init \<or> pc ?s = PC_delay" by simp
  have b: "ticks ?s = []" and c: "cur ?s = []" by (simp_all add: boot_def)
  have d: "ticks (exec 24 10 ?as ?s) =
         [[QueueEmpty, Sent \<lparr>msg_type = XM_MSG_BATLVL, msg_value = BAT_PERCENT 24 0\<rparr>,
           SendFailed \<lparr>msg_type = XM_MSG_BATSTATPIN, msg_value = 0\<rparr>],
          [QueueEmpty, SendFailed \<lparr>msg_type = XM_MSG_BATLVL, msg_value = BAT_PERCENT 24 0\<rparr>]]"
    by (simp add: boot_def exec1_def batmon_task_def xQueueReceive_def xQueueSendToBack_def
        pdPASS_def errQUEUE_EMPTY_def errQUEUE_FULL_def Let_def fl_def)
  from publish_order_in_every_tick[OF a b c, of 24 10 ?as]
  have "\<forall>e\<in>set (ticks (exec 24 10 ?as ?s)). tick_wf e" by blast
  then have "list_all tick_wf (ticks (exec 24 10 ?as ?s))"
    by (simp only: list_all_iff)
  then show ?thesis
    unfolding Let_def using a b c d by blast
qed

end
